theory Spec2Isabelle
  imports Complex_Main "HOL-Library.Word"
begin

section \<open>Bytes, exceptions and the producer's connection\<close>

text \<open>
  The desktop listener (\<^verbatim>\<open>desktop-listener/main.py\<close>) receives length-prefixed frames
  over one TCP connection. Python \<^verbatim>\<open>bytes\<close> are lists of 8-bit words; Python
  floats (time stamps, rates) are idealised as reals.
\<close>

type_synonym byte = "8 word"
type_synonym bytes = "byte list"

text \<open>The exceptions that the modelled code raises or catches.\<close>

datatype exn =
    SocketTimeout
  | ConnectionError
  | OSError
  | StructError
  | QueueEmpty
  | QueueFull
  | UnicodeEncodeError

text \<open>
  The read side of a connected socket, as the receiving thread observes it: a script of
  what successive \<^verbatim>\<open>recv\<close> calls meet. \<open>Data bs\<close> is a run of bytes that has arrived
  (a \<^verbatim>\<open>recv\<close> may take only part of it), \<open>Raise e\<close> is a call that raises \<open>e\<close>
  (the 5 second read timeout, a reset, a socket shut down by \<^verbatim>\<open>stop()\<close>). The end of
  the script, and an empty run, is the peer's orderly close: \<^verbatim>\<open>recv\<close> returns
  \<^verbatim>\<open>b''\<close> from then on.
\<close>

datatype event = Data bytes | Raise exn

type_synonym conn = "event list"

text \<open>\<^verbatim>\<open>client_socket.recv(bufsize)\<close>: at most \<open>bufsize\<close> bytes of what has arrived.\<close>

fun recv :: "conn \<Rightarrow> nat \<Rightarrow> (exn + bytes) \<times> conn" where
  "recv [] bufsize = (Inr [], [])"
| "recv (Raise e # es) bufsize = (Inl e, es)"
| "recv (Data bs # es) bufsize =
     (if bs = [] then (Inr [], Data bs # es)
      else if length bs \<le> bufsize then (Inr bs, es)
      else (Inr (take bufsize bs), Data (drop bufsize bs) # es))"

text \<open>
  \<^verbatim>\<open>
  def _recvall(self, client_socket, length):
      data = bytearray()
      while len(data) < length:
          try:
              chunk = client_socket.recv(length - len(data))
          except socket.timeout:
              return None
          if not chunk:
              return None
          data.extend(chunk)
      return bytes(data)
  \<close>
  Only \<^verbatim>\<open>socket.timeout\<close> is caught here; any other exception of \<^verbatim>\<open>recv\<close>
  leaves \<^verbatim>\<open>_recvall\<close> (\<open>Inl\<close>).
\<close>

function recvall_loop :: "conn \<Rightarrow> nat \<Rightarrow> bytes \<Rightarrow> (exn + bytes option) \<times> conn" where
  "recvall_loop sock n data =
     (if length data < n then
        (case recv sock (n - length data) of
           (Inl e, sock') \<Rightarrow>
             (if e = SocketTimeout then (Inr None, sock') else (Inl e, sock'))
         | (Inr chunk, sock') \<Rightarrow>
             (if chunk = [] then (Inr None, sock')
              else recvall_loop sock' n (data @ chunk)))
      else (Inr (Some data), sock))"
  by pat_completeness auto
termination
  by (relation "measure (\<lambda>(sock, n, data). n - length data)")
     (auto simp: neq_Nil_conv)

definition recvall :: "conn \<Rightarrow> nat \<Rightarrow> (exn + bytes option) \<times> conn" where
  "recvall sock n = recvall_loop sock n []"

text \<open>
  The bytes that will arrive on a connection before its first failing or closing
  \<^verbatim>\<open>recv\<close>, and what that \<^verbatim>\<open>recv\<close> then meets (\<open>None\<close>: the peer's close).
\<close>

fun pending :: "conn \<Rightarrow> bytes" where
  "pending [] = []"
| "pending (Raise e # es) = []"
| "pending (Data bs # es) = (if bs = [] then [] else bs @ pending es)"

fun stopper :: "conn \<Rightarrow> exn option" where
  "stopper [] = None"
| "stopper (Raise e # es) = Some e"
| "stopper (Data bs # es) = (if bs = [] then None else stopper es)"

subsection \<open>What \<^verbatim>\<open>_recvall\<close> returns, in terms of the bytes still to arrive\<close>

lemma recvall_loop_fst:
  "fst (recvall_loop sock n data) =
     (if n \<le> length data + length (pending sock)
      then Inr (Some (data @ take (n - length data) (pending sock)))
      else (case stopper sock of
              None \<Rightarrow> Inr None
            | Some e \<Rightarrow> if e = SocketTimeout then Inr None else Inl e))"
proof (induction sock n data rule: recvall_loop.induct)
  case (1 sock n data)
  show ?case
  proof (cases "length data < n")
    case False
    then show ?thesis by (simp add: recvall_loop.simps [of sock n data])
  next
    case more: True
    show ?thesis
    proof (cases sock)
      case Nil
      with more show ?thesis by (simp add: recvall_loop.simps [of sock n data])
    next
      case (Cons ev es)
      show ?thesis
      proof (cases ev)
        case (Raise e)
        with Cons more show ?thesis
          by (simp add: recvall_loop.simps [of sock n data])
      next
        case (Data bs)
        show ?thesis
        proof (cases "bs = []")
          case True
          with Data Cons more show ?thesis
            by (simp add: recvall_loop.simps [of sock n data])
        next
          case ne: False
          show ?thesis
          proof (cases "length bs \<le> n - length data")
            case True
            have r: "recv sock (n - length data) = (Inr bs, es)"
              using Cons Data ne True by simp
            have ih: "fst (recvall_loop es n (data @ bs)) =
              (if n \<le> length (data @ bs) + length (pending es)
               then Inr (Some ((data @ bs) @ take (n - length (data @ bs)) (pending es)))
               else (case stopper es of None \<Rightarrow> Inr None
                     | Some e \<Rightarrow> if e = SocketTimeout then Inr None else Inl e))"
              using "1.IH" [OF more r [symmetric] refl ne] .
            have step: "recvall_loop sock n data = recvall_loop es n (data @ bs)"
              using more r ne by (simp add: recvall_loop.simps [of sock n data])
            show ?thesis
              unfolding step ih using Cons Data ne True more
              by (auto simp: add.assoc)
          next
            case False
            let ?k = "n - length data"
            have r: "recv sock ?k = (Inr (take ?k bs), Data (drop ?k bs) # es)"
              using Cons Data ne False by simp
            have tk: "take ?k bs \<noteq> []" using more ne by simp
            have step: "recvall_loop sock n data =
                recvall_loop (Data (drop ?k bs) # es) n (data @ take ?k bs)"
              using more r tk by (simp add: recvall_loop.simps [of sock n data])
            have len: "length (data @ take ?k bs) = n" using False more by simp
            have fin: "recvall_loop (Data (drop ?k bs) # es) n (data @ take ?k bs)
                 = (Inr (Some (data @ take ?k bs)), Data (drop ?k bs) # es)"
              using len by (simp add: recvall_loop.simps [of _ n "data @ take ?k bs"])
            have le: "n \<le> length data + length bs"
              using False by arith
            show ?thesis
              unfolding step fin using Cons Data ne le more by simp
          qed
        qed
      qed
    qed
  qed
qed

lemma recvall_loop_snd:
  "n \<le> length data + length (pending sock) \<Longrightarrow>
   pending (snd (recvall_loop sock n data)) = drop (n - length data) (pending sock) \<and>
   stopper (snd (recvall_loop sock n data)) = stopper sock"
proof (induction sock n data rule: recvall_loop.induct)
  case (1 sock n data)
  show ?case
  proof (cases "length data < n")
    case False
    then show ?thesis by (simp add: recvall_loop.simps [of sock n data])
  next
    case more: True
    show ?thesis
    proof (cases sock)
      case Nil
      with more "1.prems" show ?thesis by simp
    next
      case (Cons ev es)
      show ?thesis
      proof (cases ev)
        case (Raise e)
        with Cons more "1.prems" show ?thesis by simp
      next
        case (Data bs)
        show ?thesis
        proof (cases "bs = []")
          case True
          with Data Cons more "1.prems" show ?thesis by simp
        next
          case ne: False
          show ?thesis
          proof (cases "length bs \<le> n - length data")
            case True
            have r: "recv sock (n - length data) = (Inr bs, es)"
              using Cons Data ne True by simp
            have step: "recvall_loop sock n data = recvall_loop es n (data @ bs)"
              using more r ne by (simp add: recvall_loop.simps [of sock n data])
            have pre: "n \<le> length (data @ bs) + length (pending es)"
              using "1.prems" Cons Data ne by simp
            have ih: "pending (snd (recvall_loop es n (data @ bs))) =
                        drop (n - length (data @ bs)) (pending es) \<and>
                      stopper (snd (recvall_loop es n (data @ bs))) = stopper es"
              using "1.IH" [OF more r [symmetric] refl ne pre] .
            show ?thesis
              unfolding step using ih Cons Data ne True more by simp
          next
            case False
            let ?k = "n - length data"
            have r: "recv sock ?k = (Inr (take ?k bs), Data (drop ?k bs) # es)"
              using Cons Data ne False by simp
            have tk: "take ?k bs \<noteq> []" using more ne by simp
            have step: "recvall_loop sock n data =
                recvall_loop (Data (drop ?k bs) # es) n (data @ take ?k bs)"
              using more r tk by (simp add: recvall_loop.simps [of sock n data])
            have len: "length (data @ take ?k bs) = n" using False more by simp
            have fin: "recvall_loop (Data (drop ?k bs) # es) n (data @ take ?k bs)
                 = (Inr (Some (data @ take ?k bs)), Data (drop ?k bs) # es)"
              using len by (simp add: recvall_loop.simps [of _ n "data @ take ?k bs"])
            have dne: "drop ?k bs \<noteq> []" using False by simp
            show ?thesis
              unfolding step fin using Cons Data ne dne False more by simp
          qed
        qed
      qed
    qed
  qed
qed

lemma recvall_Some:
  assumes "recvall sock n = (Inr (Some d), sock')"
  shows "n \<le> length (pending sock)" and "d = take n (pending sock)"
    and "pending sock' = drop n (pending sock)" and "stopper sock' = stopper sock"
proof -
  have f: "fst (recvall_loop sock n []) = Inr (Some d)"
    using assms by (simp add: recvall_def)
  show le: "n \<le> length (pending sock)"
  proof (rule ccontr)
    assume "\<not> n \<le> length (pending sock)"
    then show False
      using f recvall_loop_fst [of sock n "[]"]
      by (simp split: option.splits if_splits)
  qed
  show "d = take n (pending sock)"
    using f le recvall_loop_fst [of sock n "[]"] by simp
  have s: "snd (recvall_loop sock n []) = sock'"
    using assms by (simp add: recvall_def)
  show "pending sock' = drop n (pending sock)" and "stopper sock' = stopper sock"
    using recvall_loop_snd [of n "[]" sock] le s by simp_all
qed

lemma recvall_enough:
  assumes "n \<le> length (pending sock)"
  shows "\<exists>sock'. recvall sock n = (Inr (Some (take n (pending sock))), sock') \<and>
           pending sock' = drop n (pending sock) \<and> stopper sock' = stopper sock"
proof -
  have "fst (recvall sock n) = Inr (Some (take n (pending sock)))"
    using assms recvall_loop_fst [of sock n "[]"] by (simp add: recvall_def)
  moreover have "pending (snd (recvall sock n)) = drop n (pending sock)"
    "stopper (snd (recvall sock n)) = stopper sock"
    using assms recvall_loop_snd [of n "[]" sock] by (simp_all add: recvall_def)
  ultimately show ?thesis
    by (metis prod.collapse)
qed

section \<open>The framing header\<close>

text \<open>
  \<^verbatim>\<open>struct.unpack('>I', header)\<close>: four bytes read as one unsigned big-endian integer;
  a buffer of any other size raises \<^verbatim>\<open>struct.error\<close>.
\<close>

definition unpack_I :: "bytes \<Rightarrow> exn + nat" where
  "unpack_I buffer =
     (case buffer of
        [b0, b1, b2, b3] \<Rightarrow>
          Inr (unat b0 * 2 ^ 24 + unat b1 * 2 ^ 16 + unat b2 * 2 ^ 8 + unat b3)
      | _ \<Rightarrow> Inl StructError)"

section \<open>The hand-off queue and the statistics\<close>

text \<open>
  \<^verbatim>\<open>queue.Queue(maxsize)\<close> of the standard library, holding (frame, timestamp) pairs:
  \<^verbatim>\<open>full()\<close> is \<^verbatim>\<open>0 < maxsize <= qsize()\<close>, \<^verbatim>\<open>get_nowait()\<close> raises
  \<^verbatim>\<open>queue.Empty\<close> on an empty queue and otherwise removes the oldest item,
  \<^verbatim>\<open>put_nowait(x)\<close> raises \<^verbatim>\<open>queue.Full\<close> when \<^verbatim>\<open>maxsize > 0\<close> and
  \<^verbatim>\<open>qsize() >= maxsize\<close> and otherwise appends.
\<close>

type_synonym item = "bytes \<times> real"

record queue =
  maxsize :: int
  items :: "item list"

definition Queue :: "int \<Rightarrow> queue" where
  "Queue m = \<lparr>maxsize = m, items = []\<rparr>"

definition full :: "queue \<Rightarrow> bool" where
  "full q = (0 < maxsize q \<and> maxsize q \<le> int (length (items q)))"

definition get_nowait :: "queue \<Rightarrow> exn + (item \<times> queue)" where
  "get_nowait q =
     (case items q of
        [] \<Rightarrow> Inl QueueEmpty
      | x # xs \<Rightarrow> Inr (x, q\<lparr>items := xs\<rparr>))"

definition put_nowait :: "queue \<Rightarrow> item \<Rightarrow> exn + queue" where
  "put_nowait q x =
     (if 0 < maxsize q \<and> maxsize q \<le> int (length (items q)) then Inl QueueFull
      else Inr (q\<lparr>items := items q @ [x]\<rparr>))"

text \<open>
  \<^verbatim>\<open>
  @dataclass
  class FrameStats:
      fps: float = 0.0
      latency_ms: float = 0.0
      last_updated: float = time.time()
  \<close>
  The default of \<^verbatim>\<open>last_updated\<close> is the clock reading taken when the class is defined.
\<close>

record frame_stats =
  fps :: real
  latency_ms :: real
  last_updated :: real

definition FrameStats :: "real \<Rightarrow> frame_stats" where
  "FrameStats import_time = \<lparr>fps = 0, latency_ms = 0, last_updated = import_time\<rparr>"

section \<open>The video server\<close>

text \<open>
  The write direction of the client's socket: the payload of every completed
  \<^verbatim>\<open>sendall\<close> call, in order, and the exception that \<^verbatim>\<open>sendall\<close> raises on this
  socket, if it is broken. The receive loop uses only the read direction (a \<open>conn\<close>) and
  the control channel only the write direction, so the two are kept as separate values.
\<close>

record out_stream =
  sent :: "bytes list"
  send_error :: "exn option"

definition sendall :: "out_stream \<Rightarrow> bytes \<Rightarrow> exn + out_stream" where
  "sendall out bs =
     (case send_error out of
        Some e \<Rightarrow> Inl e
      | None \<Rightarrow> Inr (out\<lparr>sent := sent out @ [bs]\<rparr>))"

text \<open>
  A \<^verbatim>\<open>threading.Thread\<close> object, as \<^verbatim>\<open>start()\<close> sees it: \<open>is_alive\<close> is what
  \<^verbatim>\<open>is_alive()\<close> answers at the time of the call.
\<close>

datatype thread = Thread (is_alive: bool)

text \<open>A line printed on standard output: \<^verbatim>\<open>Failed to send control command: {e}\<close>.\<close>

datatype line = FailedToSend exn

text \<open>
  The fields of \<^verbatim>\<open>VideoServer\<close>. \<open>should_run\<close> is whether the event
  \<^verbatim>\<open>_should_run\<close> is set. \<open>stdout\<close> is not a field of the class: it collects what
  the methods print.
\<close>

record video_server =
  host :: string
  port :: int
  frame_queue :: queue
  stats :: frame_stats
  should_run :: bool
  server_thread :: "thread option"
  client_socket :: "conn option"
  client_output_stream :: "out_stream option"
  stdout :: "line list"

definition VideoServer :: "string \<Rightarrow> int \<Rightarrow> queue \<Rightarrow> frame_stats \<Rightarrow> video_server" where
  "VideoServer h p q st =
     \<lparr>host = h, port = p, frame_queue = q, stats = st, should_run = False,
      server_thread = None, client_socket = None, client_output_stream = None,
      stdout = []\<rparr>"

text \<open>How a method that returns nothing ends: it returns, or an exception leaves it.\<close>

datatype completion = Returned | Raised exn

text \<open>
  \<^verbatim>\<open>
  def _push_frame(self, frame_data, timestamp):
      if self.frame_queue.full():
          try:
              self.frame_queue.get_nowait()
          except queue.Empty:
              pass
      try:
          self.frame_queue.put_nowait((frame_data, timestamp))
      except queue.Full:
          pass
      self.stats.last_updated = timestamp
  \<close>
  The queue is shared with the display thread. \<open>other1\<close> is what other threads do to
  the queue between the \<^verbatim>\<open>full()\<close> test and the next queue call, \<open>other2\<close> what they
  do just before \<^verbatim>\<open>put_nowait\<close>; \<open>push_frame id id\<close> is the call running undisturbed.
\<close>

definition push_frame ::
  "(queue \<Rightarrow> queue) \<Rightarrow> (queue \<Rightarrow> queue) \<Rightarrow> video_server \<Rightarrow> bytes \<Rightarrow> real
     \<Rightarrow> completion \<times> video_server" where
  "push_frame other1 other2 self frame_data timestamp =
     (let q0 = frame_queue self;
          dropped =
            (if full q0 then
               (case get_nowait (other1 q0) of
                  Inr (old, q) \<Rightarrow> Inr q
                | Inl e \<Rightarrow> if e = QueueEmpty then Inr (other1 q0) else Inl e)
             else Inr (other1 q0))
      in case dropped of
           Inl e \<Rightarrow> (Raised e, self\<lparr>frame_queue := other1 q0\<rparr>)
         | Inr q1 \<Rightarrow>
             (case put_nowait (other2 q1) (frame_data, timestamp) of
                Inr q2 \<Rightarrow>
                  (Returned,
                   self\<lparr>frame_queue := q2,
                        stats := (stats self)\<lparr>last_updated := timestamp\<rparr>\<rparr>)
              | Inl e \<Rightarrow>
                  if e = QueueFull then
                    (Returned,
                     self\<lparr>frame_queue := other2 q1,
                          stats := (stats self)\<lparr>last_updated := timestamp\<rparr>\<rparr>)
                  else (Raised e, self\<lparr>frame_queue := other2 q1\<rparr>)))"

subsection \<open>The per-connection receive loop\<close>

text \<open>
  \<open>clock k\<close> is what the \<open>k\<close>-th call of \<^verbatim>\<open>time.time()\<close> on the server thread returns.
  A \<open>receiver\<close> is the state of one run of \<^verbatim>\<open>_handle_client\<close>: the server object, the
  read direction of \<^verbatim>\<open>client_socket\<close>, the number of clock readings taken so far, and
  the locals \<^verbatim>\<open>frame_count\<close> and \<^verbatim>\<open>window_start\<close>.
\<close>

type_synonym clock = "nat \<Rightarrow> real"

record receiver =
  self :: video_server
  sock :: conn
  time_calls :: nat
  frame_count :: int
  window_start :: real

datatype flow = Continue | Break | Uncaught exn

text \<open>
  The handlers of the loop's \<^verbatim>\<open>try\<close>:
  \<^verbatim>\<open>except (socket.timeout, ConnectionError, struct.error): break\<close> and
  \<^verbatim>\<open>except OSError: break\<close>.
\<close>

definition on_exception :: "exn \<Rightarrow> flow" where
  "on_exception e =
     (if e = SocketTimeout \<or> e = ConnectionError \<or> e = StructError \<or> e = OSError
      then Break else Uncaught e)"

text \<open>
  One pass through the body of \<^verbatim>\<open>while self._should_run.is_set():\<close>
  \<^verbatim>\<open>
  header = self._recvall(client_socket, 4)
  if not header:
      break
  (frame_length,) = struct.unpack('>I', header)
  if frame_length <= 0 or frame_length > 5 * 1024 * 1024:
      continue
  frame_data = self._recvall(client_socket, frame_length)
  if not frame_data:
      break
  now = time.time()
  self._push_frame(frame_data, now)
  frame_count += 1
  elapsed = now - window_start
  if elapsed >= 1.0:
      self.stats.fps = frame_count / elapsed
      frame_count = 0
      window_start = now
  \<close>
\<close>

definition loop_body :: "clock \<Rightarrow> receiver \<Rightarrow> flow \<times> receiver" where
  "loop_body clock r =
     (case recvall (sock r) 4 of
        (Inl e, s1) \<Rightarrow> (on_exception e, r\<lparr>sock := s1\<rparr>)
      | (Inr header, s1) \<Rightarrow>
          (let r1 = r\<lparr>sock := s1\<rparr> in
           case header of
             None \<Rightarrow> (Break, r1)
           | Some h \<Rightarrow>
               if h = [] then (Break, r1)
               else
                 (case unpack_I h of
                    Inl e \<Rightarrow> (on_exception e, r1)
                  | Inr frame_length \<Rightarrow>
                      if frame_length \<le> 0 \<or> frame_length > 5 * 1024 * 1024
                      then (Continue, r1)
                      else
                        (case recvall (sock r1) frame_length of
                           (Inl e, s2) \<Rightarrow> (on_exception e, r1\<lparr>sock := s2\<rparr>)
                         | (Inr frame_data, s2) \<Rightarrow>
                             (let r2 = r1\<lparr>sock := s2\<rparr> in
                              case frame_data of
                                None \<Rightarrow> (Break, r2)
                              | Some fd \<Rightarrow>
                                  if fd = [] then (Break, r2)
                                  else
                                    (let now = clock (time_calls r2);
                                         r3 = r2\<lparr>time_calls := Suc (time_calls r2)\<rparr>
                                     in case push_frame id id (self r3) fd now of
                                          (Raised e, srv) \<Rightarrow>
                                            (on_exception e, r3\<lparr>self := srv\<rparr>)
                                        | (Returned, srv) \<Rightarrow>
                                            (let r4 = r3\<lparr>self := srv,
                                                   frame_count := frame_count r3 + 1\<rparr>;
                                                 elapsed = now - window_start r4
                                             in if elapsed \<ge> 1.0 then
                                                  (Continue,
                                                   r4\<lparr>self := (self r4)\<lparr>stats :=
                                                          (stats (self r4))\<lparr>fps :=
                                                             real_of_int (frame_count r4)
                                                               / elapsed\<rparr>\<rparr>,
                                                      frame_count := 0,
                                                      window_start := now\<rparr>)
                                                else (Continue, r4))))))))"

text \<open>A pass that ends in \<open>Continue\<close> has taken at least the four header bytes.\<close>

lemma loop_body_Continue_pending:
  assumes "loop_body clock r = (Continue, r')"
  shows "length (pending (sock r')) < length (pending (sock r))"
proof -
  obtain res s1 where rv: "recvall (sock r) 4 = (res, s1)"
    by (cases "recvall (sock r) 4")
  show ?thesis
  proof (cases res)
    case (Inl e)
    with rv assms show ?thesis
      by (simp add: loop_body_def on_exception_def split: if_splits)
  next
    case (Inr header)
    show ?thesis
    proof (cases header)
      case None
      with Inr rv assms show ?thesis by (simp add: loop_body_def)
    next
      case (Some h)
      have hd: "recvall (sock r) 4 = (Inr (Some h), s1)"
        using rv Inr Some by simp
      have le: "4 \<le> length (pending (sock r))"
        and p1: "pending s1 = drop 4 (pending (sock r))"
        using recvall_Some [OF hd] by simp_all
      have less1: "length (pending s1) < length (pending (sock r))"
        using le p1 by simp
      show ?thesis
      proof (cases "h = []")
        case True
        with hd assms show ?thesis by (simp add: loop_body_def)
      next
        case hne: False
        show ?thesis
        proof (cases "unpack_I h")
          case (Inl e)
          with hd hne assms show ?thesis
            by (simp add: loop_body_def on_exception_def split: if_splits)
        next
          case len: (Inr frame_length)
          show ?thesis
          proof (cases "frame_length \<le> 0 \<or> frame_length > 5 * 1024 * 1024")
            case True
            then have "r' = r\<lparr>sock := s1\<rparr>"
              using hd hne len assms by (simp add: loop_body_def Let_def)
            with less1 show ?thesis by simp
          next
            case inb: False
            obtain res2 s2 where rv2: "recvall s1 frame_length = (res2, s2)"
              by (cases "recvall s1 frame_length")
            show ?thesis
            proof (cases res2)
              case (Inl e)
              with rv2 hd hne len inb assms show ?thesis
                by (simp add: loop_body_def Let_def on_exception_def split: if_splits)
            next
              case r2: (Inr frame_data)
              show ?thesis
              proof (cases frame_data)
                case None
                with r2 rv2 hd hne len inb assms show ?thesis
                  by (simp add: loop_body_def Let_def)
              next
                case (Some fd)
                have fd: "recvall s1 frame_length = (Inr (Some fd), s2)"
                  using rv2 r2 Some by simp
                have p2: "pending s2 = drop frame_length (pending s1)"
                  using recvall_Some [OF fd] by simp
                have less2: "length (pending s2) < length (pending (sock r))"
                  using p2 less1 by simp
                have "sock r' = s2"
                  using fd hd hne len inb assms
                  by (auto simp: loop_body_def Let_def on_exception_def
                      split: if_splits prod.splits completion.splits)
                with less2 show ?thesis by simp
              qed
            qed
          qed
        qed
      qed
    qed
  qed
qed

text \<open>
  The loop is left by \<^verbatim>\<open>break\<close>, by an exception that no handler matches, or when the
  flag is found cleared. A \<^verbatim>\<open>stop()\<close> on another thread also shuts the socket down,
  which the loop meets as a failing or empty \<^verbatim>\<open>recv\<close>.
\<close>

function handle_loop :: "clock \<Rightarrow> receiver \<Rightarrow> completion \<times> receiver" where
  "handle_loop clock r =
     (if should_run (self r) then
        (case loop_body clock r of
           (Continue, r') \<Rightarrow> handle_loop clock r'
         | (Break, r') \<Rightarrow> (Returned, r')
         | (Uncaught e, r') \<Rightarrow> (Raised e, r'))
      else (Returned, r))"
  by pat_completeness auto
termination
  by (relation "measure (\<lambda>(clock, r). length (pending (sock r)))")
     (auto dest: loop_body_Continue_pending [OF sym])

text \<open>
  \<^verbatim>\<open>_handle_client\<close>: the socket options and the 5 second read timeout are set (the
  timeout shows as \<open>Raise SocketTimeout\<close> in the connection's script), the socket becomes
  the control channel's output stream, the clock is read for \<^verbatim>\<open>window_start\<close>, the loop
  runs, and the output stream is cleared. \<open>calls\<close> is the number of clock readings taken
  before the call.
\<close>

definition handle_client ::
  "clock \<Rightarrow> video_server \<Rightarrow> nat \<Rightarrow> conn \<Rightarrow> out_stream \<Rightarrow> completion \<times> receiver" where
  "handle_client clock self0 calls client_in client_out =
     (let r0 = \<lparr>self = self0\<lparr>client_output_stream := Some client_out\<rparr>,
                sock = client_in, time_calls = Suc calls,
                frame_count = 0, window_start = clock calls\<rparr>
      in case handle_loop clock r0 of
           (Raised e, r) \<Rightarrow> (Raised e, r)
         | (Returned, r) \<Rightarrow>
             (Returned, r\<lparr>self := (self r)\<lparr>client_output_stream := None\<rparr>\<rparr>))"

text \<open>
  A wire unit, header and payload, that the loop accepts: the header decodes to a length
  that passes the test of the loop, and the payload has that length.
\<close>

definition well_formed :: "bytes \<times> bytes \<Rightarrow> bool" where
  "well_formed u =
     (case unpack_I (fst u) of
        Inl e \<Rightarrow> False
      | Inr n \<Rightarrow> 1 \<le> n \<and> n \<le> 5 * 1024 * 1024 \<and> length (snd u) = n)"

text \<open>
  A receiver state used as an example below: the viewer's server, running, with a
  connection on which a header declaring 5 MiB + 1 bytes is followed by a well-formed
  unit of one byte.
\<close>

definition oversize_then_frame :: receiver where
  "oversize_then_frame =
     \<lparr>self = (VideoServer ''0.0.0.0'' 5000 (Queue 1) (FrameStats 0))\<lparr>should_run := True\<rparr>,
      sock = [Data [0, 0x50, 0, 1, 0, 0, 0, 1, 65]],
      time_calls = 1, frame_count = 0, window_start = 0\<rparr>"

subsection \<open>The listener thread\<close>

text \<open>
  What the operating system does for \<^verbatim>\<open>_run_server\<close>: \<open>bind_error\<close> is the exception
  that \<^verbatim>\<open>server_socket.bind((self.host, self.port))\<close> raises, if the address cannot be
  bound; \<open>accepts\<close> is what the successive \<^verbatim>\<open>accept()\<close> calls meet, a raised exception
  (\<open>SocketTimeout\<close> after the 1 second wait) or a new client with the two directions of
  its socket. When the script is exhausted the listening socket is taken to fail.
\<close>

datatype accept_event = AcceptRaises exn | Accepted conn out_stream

record listener =
  bind_error :: "exn option"
  accepts :: "accept_event list"

text \<open>
  \<^verbatim>\<open>
  while self._should_run.is_set():
      try:
          client_socket, address = server_socket.accept()
          self._client_socket = client_socket
          self._handle_client(client_socket, address)
      except socket.timeout:
          continue
      except OSError:
          break
  \<close>
\<close>

fun accept_loop ::
  "clock \<Rightarrow> accept_event list \<Rightarrow> video_server \<Rightarrow> nat \<Rightarrow> completion \<times> video_server \<times> nat" where
  "accept_loop clock [] srv calls = (Returned, srv, calls)"
| "accept_loop clock (AcceptRaises e # evs) srv calls =
     (if should_run srv then
        (if e = SocketTimeout then accept_loop clock evs srv calls
         else if e = ConnectionError \<or> e = OSError then (Returned, srv, calls)
         else (Raised e, srv, calls))
      else (Returned, srv, calls))"
| "accept_loop clock (Accepted client_in client_out # evs) srv calls =
     (if should_run srv then
        (case handle_client clock (srv\<lparr>client_socket := Some client_in\<rparr>) calls
                client_in client_out of
           (Returned, r) \<Rightarrow> accept_loop clock evs (self r) (time_calls r)
         | (Raised e, r) \<Rightarrow>
             if e = SocketTimeout then accept_loop clock evs (self r) (time_calls r)
             else if e = ConnectionError \<or> e = OSError
             then (Returned, self r, time_calls r)
             else (Raised e, self r, time_calls r))
      else (Returned, srv, calls))"

text \<open>
  \<^verbatim>\<open>
  def _run_server(self):
      with socket.socket(socket.AF_INET, socket.SOCK_STREAM) as server_socket:
          server_socket.setsockopt(socket.SOL_SOCKET, socket.SO_REUSEADDR, 1)
          server_socket.bind((self.host, self.port))
          server_socket.listen(1)
          server_socket.settimeout(1.0)
          while ...
  \<close>
  The call of \<^verbatim>\<open>bind\<close> is outside every \<^verbatim>\<open>try\<close>: its exception leaves
  \<^verbatim>\<open>_run_server\<close>.
\<close>

definition run_server ::
  "clock \<Rightarrow> listener \<Rightarrow> video_server \<Rightarrow> nat \<Rightarrow> completion \<times> video_server \<times> nat" where
  "run_server clock net srv calls =
     (case bind_error net of
        Some e \<Rightarrow> (Raised e, srv, calls)
      | None \<Rightarrow> accept_loop clock (accepts net) srv calls)"

text \<open>
  \<^verbatim>\<open>
  def start(self):
      if self._server_thread and self._server_thread.is_alive():
          return
      self._should_run.set()
      self._server_thread = threading.Thread(target=self._run_server, daemon=True)
      self._server_thread.start()
  \<close>
  \<^verbatim>\<open>Thread.start()\<close> returns once the new thread has begun; \<^verbatim>\<open>_run_server\<close> then
  runs on that thread, not in the caller of \<^verbatim>\<open>start()\<close>.
\<close>

definition start :: "video_server \<Rightarrow> completion \<times> video_server" where
  "start srv =
     (if (case server_thread srv of None \<Rightarrow> False | Some t \<Rightarrow> is_alive t)
      then (Returned, srv)
      else (Returned, srv\<lparr>should_run := True, server_thread := Some (Thread True)\<rparr>))"

subsection \<open>The control channel\<close>

text \<open>
  A Python \<^verbatim>\<open>str\<close> is a list of code points. \<^verbatim>\<open>str.encode('utf-8')\<close> writes each
  code point in one to four bytes and raises \<^verbatim>\<open>UnicodeEncodeError\<close> on a surrogate
  (U+D800 to U+DFFF).
\<close>

type_synonym str = "nat list"

definition encode_char :: "nat \<Rightarrow> exn + bytes" where
  "encode_char c =
     (if c < 0x80 then Inr [of_nat c]
      else if c < 0x800 then Inr [of_nat (0xC0 + c div 64), of_nat (0x80 + c mod 64)]
      else if 0xD800 \<le> c \<and> c \<le> 0xDFFF then Inl UnicodeEncodeError
      else if c < 0x10000 then
        Inr [of_nat (0xE0 + c div 4096), of_nat (0x80 + c div 64 mod 64),
             of_nat (0x80 + c mod 64)]
      else
        Inr [of_nat (0xF0 + c div 262144 mod 8), of_nat (0x80 + c div 4096 mod 64),
             of_nat (0x80 + c div 64 mod 64), of_nat (0x80 + c mod 64)])"

fun encode_utf8 :: "str \<Rightarrow> exn + bytes" where
  "encode_utf8 [] = Inr []"
| "encode_utf8 (c # cs) =
     (case encode_char c of
        Inl e \<Rightarrow> Inl e
      | Inr bs \<Rightarrow> (case encode_utf8 cs of Inl e \<Rightarrow> Inl e | Inr rest \<Rightarrow> Inr (bs @ rest)))"

text \<open>
  \<^verbatim>\<open>
  def send_control_command(self, command):
      if self._client_output_stream:
          try:
              self._client_output_stream.sendall(command.encode('utf-8') + b'\n')
          except Exception as e:
              print(f"Failed to send control command: {e}")
  \<close>
\<close>

definition send_control_command :: "video_server \<Rightarrow> str \<Rightarrow> completion \<times> video_server" where
  "send_control_command srv command =
     (case client_output_stream srv of
        None \<Rightarrow> (Returned, srv)
      | Some out \<Rightarrow>
          (case encode_utf8 command of
             Inl e \<Rightarrow> (Returned, srv\<lparr>stdout := stdout srv @ [FailedToSend e]\<rparr>)
           | Inr bs \<Rightarrow>
               (case sendall out (bs @ [0x0A]) of
                  Inl e \<Rightarrow> (Returned, srv\<lparr>stdout := stdout srv @ [FailedToSend e]\<rparr>)
                | Inr out' \<Rightarrow> (Returned, srv\<lparr>client_output_stream := Some out'\<rparr>))))"

section \<open>The viewer's statistics display\<close>

text \<open>
  The three text variables of the status bar. Each constructor is one of the texts the
  code sets: \<^verbatim>\<open>FPS: --\<close> or \<^verbatim>\<open>FPS: {fps:.1f}\<close>, \<^verbatim>\<open>Latency: --ms\<close> or
  \<^verbatim>\<open>Latency: {latency_ms:.0f}ms\<close>, and the four status messages.
\<close>

datatype fps_text = FpsIdle | FpsValue real
datatype latency_text = LatencyIdle | LatencyValue real
datatype status_text = WaitingForConnection | StreamingActive | WaitingForStream | ServerStopped

record viewer_app =
  fps_var :: fps_text
  latency_var :: latency_text
  status_var :: status_text

text \<open>
  \<^verbatim>\<open>
  def _refresh_stats(self):
      elapsed = time.time() - self.stats.last_updated
      if elapsed < 2.0 and self.stats.fps > 0:
          self.fps_var.set(f"FPS: {self.stats.fps:.1f}")
          self.latency_var.set(f"Latency: {self.stats.latency_ms:.0f}ms")
          self.status_var.set("Streaming active")
      else:
          self.fps_var.set("FPS: --")
          self.latency_var.set("Latency: --ms")
          self.status_var.set("Waiting for stream...")
      self.after(500, self._refresh_stats)
  \<close>
  \<open>now\<close> is the reading of \<^verbatim>\<open>time.time()\<close> at this tick.
\<close>

definition refresh_stats :: "real \<Rightarrow> frame_stats \<Rightarrow> viewer_app \<Rightarrow> viewer_app" where
  "refresh_stats now st app =
     (let elapsed = now - last_updated st in
      if elapsed < 2.0 \<and> fps st > 0 then
        app\<lparr>fps_var := FpsValue (fps st), latency_var := LatencyValue (latency_ms st),
            status_var := StreamingActive\<rparr>
      else
        app\<lparr>fps_var := FpsIdle, latency_var := LatencyIdle,
            status_var := WaitingForStream\<rparr>)"

text \<open>
  \<^verbatim>\<open>_display_frame\<close>, as far as the statistics go: when decoding and painting the image
  succeed (\<open>painted\<close>), \<^verbatim>\<open>self.stats.latency_ms = max((now - timestamp) * 1000.0, 0.0)\<close>;
  when they raise, the method returns with the statistics as they were.
\<close>

definition display_frame :: "bool \<Rightarrow> real \<Rightarrow> frame_stats \<Rightarrow> real \<Rightarrow> frame_stats" where
  "display_frame painted now st timestamp =
     (if painted then st\<lparr>latency_ms := max ((now - timestamp) * 1000.0) 0.0\<rparr> else st)"

text \<open>The bounds that the statistics are meant to keep: \<^verbatim>\<open>fps >= 0\<close> and \<^verbatim>\<open>latency_ms >= 0\<close>.\<close>

definition stats_ok :: "frame_stats \<Rightarrow> bool" where
  "stats_ok st = (0 \<le> fps st \<and> 0 \<le> latency_ms st)"

section \<open>Properties\<close>

subsection \<open>Reading fully or failing\<close>

text \<open>
  C7. \<^verbatim>\<open>_recvall\<close> is all-or-nothing. For every connection \<open>c\<close> and every requested
  length \<open>n\<close>, one of three things happens. It returns bytes, and then they are exactly
  the next \<open>n\<close> bytes to arrive, in order, however the arrival is cut into chunks, and
  exactly those bytes have been taken from the connection. It returns \<^verbatim>\<open>None\<close>, and then
  fewer than \<open>n\<close> bytes arrive before the peer closes or a read times out. Or an
  exception other than the timeout leaves it, and then fewer than \<open>n\<close> bytes arrive
  before the read that raises it. A shorter run of bytes is never returned.
\<close>

theorem recvall_all_or_nothing:
  "(case fst (recvall c n) of
      Inr (Some data) \<Rightarrow>
        length data = n \<and> data = take n (pending c) \<and>
        pending (snd (recvall c n)) = drop n (pending c)
    | Inr None \<Rightarrow>
        length (pending c) < n \<and>
        (stopper c = None \<or> stopper c = Some SocketTimeout)
    | Inl e \<Rightarrow>
        length (pending c) < n \<and> stopper c = Some e \<and> e \<noteq> SocketTimeout)"
proof (cases "n \<le> length (pending c)")
  case True
  from recvall_enough [OF True] obtain c' where
    "recvall c n = (Inr (Some (take n (pending c))), c')"
    "pending c' = drop n (pending c)"
    by blast
  with True show ?thesis by simp
next
  case False
  then have "fst (recvall c n) =
      (case stopper c of None \<Rightarrow> Inr None
       | Some e \<Rightarrow> if e = SocketTimeout then Inr None else Inl e)"
    using recvall_loop_fst [of c n "[]"] by (simp add: recvall_def)
  with False show ?thesis
    by (simp split: option.splits)
qed

subsection \<open>Pushing into the hand-off queue\<close>

text \<open>The queue calls raise nothing but the exceptions that \<^verbatim>\<open>_push_frame\<close> catches.\<close>

lemma get_nowait_raises: "get_nowait q = Inl e \<Longrightarrow> e = QueueEmpty"
  by (simp add: get_nowait_def split: list.splits)

lemma put_nowait_raises: "put_nowait q x = Inl e \<Longrightarrow> e = QueueFull"
  by (simp add: put_nowait_def split: if_splits)

lemma push_frame_returns: "fst (push_frame other1 other2 srv fd ts) = Returned"
  by (auto simp: push_frame_def Let_def split: sum.splits prod.splits
      dest: get_nowait_raises put_nowait_raises)

lemma push_frame_stats:
  "stats (snd (push_frame other1 other2 srv fd ts)) = (stats srv)\<lparr>last_updated := ts\<rparr>"
  by (auto simp: push_frame_def Let_def split: sum.splits prod.splits
      dest: get_nowait_raises put_nowait_raises)

lemma push_frame_capacity_one:
  assumes "maxsize (frame_queue srv) = 1" and "length (items (frame_queue srv)) \<le> 1"
  shows "items (frame_queue (snd (push_frame id id srv fd ts))) = [(fd, ts)]"
proof (cases "items (frame_queue srv)")
  case Nil
  with assms show ?thesis
    by (simp add: push_frame_def full_def put_nowait_def)
next
  case (Cons old rest)
  with assms have "rest = []" by simp
  with Cons assms show ?thesis
    by (simp add: push_frame_def full_def get_nowait_def put_nowait_def)
qed

lemma push_frame_unbounded:
  "maxsize (frame_queue srv) \<le> 0 \<Longrightarrow>
   frame_queue (snd (push_frame id id srv fd ts)) =
     (frame_queue srv)\<lparr>items := items (frame_queue srv) @ [(fd, ts)]\<rparr>"
  by (simp add: push_frame_def Let_def full_def put_nowait_def)

lemma push_frame_should_run:
  "should_run (snd (push_frame other1 other2 srv fd ts)) = should_run srv"
  by (auto simp: push_frame_def Let_def split: sum.splits prod.splits)

lemma push_frame_client_output_stream:
  "frame_queue (snd (push_frame other1 other2 (srv\<lparr>client_output_stream := out\<rparr>) fd ts)) =
   frame_queue (snd (push_frame other1 other2 srv fd ts))"
  by (auto simp: push_frame_def Let_def split: sum.splits prod.splits)

text \<open>
  C3. \<^verbatim>\<open>_push_frame\<close> never raises, whatever the queue holds and whatever other threads
  do to the queue between its calls; it makes no blocking call (\<^verbatim>\<open>full\<close>,
  \<^verbatim>\<open>get_nowait\<close> and \<^verbatim>\<open>put_nowait\<close> only). Run undisturbed on the capacity-1 queue
  of the viewer, empty or holding an undrained frame, it leaves exactly the new pair in
  the queue: an old occupant is discarded, never kept beside the new one.
\<close>

theorem push_frame_drop_oldest:
  "fst (push_frame other1 other2 srv fd ts) = Returned \<and>
   (maxsize (frame_queue srv) = 1 \<and> length (items (frame_queue srv)) \<le> 1 \<longrightarrow>
      items (frame_queue (snd (push_frame id id srv fd ts))) = [(fd, ts)])"
  by (simp add: push_frame_returns push_frame_capacity_one)

theorem push_frame_drop_oldest_witness:
  "items (frame_queue (snd (push_frame id id
      (VideoServer ''0.0.0.0'' 5000 \<lparr>maxsize = 1, items = [([1, 2], 10)]\<rparr> (FrameStats 0))
      [3, 4] 11))) = [([3, 4], 11)]"
  using push_frame_drop_oldest [of id id
      "VideoServer ''0.0.0.0'' 5000 \<lparr>maxsize = 1, items = [([1, 2], 10)]\<rparr> (FrameStats 0)"
      "[3, 4]" 11]
  by (simp add: VideoServer_def)

text \<open>
  C10. Every call of \<^verbatim>\<open>_push_frame\<close> returns with \<^verbatim>\<open>stats.last_updated\<close> set to the
  frame's timestamp and every other statistics field as it was, whatever the queue holds
  and whatever other threads do to it between the calls, so also when \<^verbatim>\<open>put_nowait\<close>
  raises \<^verbatim>\<open>queue.Full\<close> and the new frame is dropped.
\<close>

theorem push_frame_last_updated:
  "fst (push_frame other1 other2 srv fd ts) = Returned \<and>
   stats (snd (push_frame other1 other2 srv fd ts)) = (stats srv)\<lparr>last_updated := ts\<rparr>"
  by (simp add: push_frame_returns push_frame_stats)

text \<open>
  Such a run: the queue is empty at the \<^verbatim>\<open>full()\<close> test, another thread fills the slot
  before \<^verbatim>\<open>put_nowait\<close>, the new frame is dropped, and \<^verbatim>\<open>last_updated\<close> is its
  timestamp all the same.
\<close>

lemma push_frame_discarded_example:
  "push_frame id (\<lambda>q. q\<lparr>items := items q @ [([9], 5)]\<rparr>)
      (VideoServer ''0.0.0.0'' 5000 (Queue 1) (FrameStats 0)) [3, 4] 11 =
   (Returned,
    VideoServer ''0.0.0.0'' 5000 \<lparr>maxsize = 1, items = [([9], 5)]\<rparr>
      \<lparr>fps = 0, latency_ms = 0, last_updated = 11\<rparr>)"
  by (simp add: push_frame_def VideoServer_def Queue_def FrameStats_def full_def
      put_nowait_def)

subsection \<open>The staleness threshold of the display\<close>

text \<open>
  C8. At a refresh tick at which at least 2 seconds have passed since
  \<^verbatim>\<open>stats.last_updated\<close>, the status text is the waiting one, not the streaming one,
  and the rate and latency texts are the idle ones, whatever rate is stored.
\<close>

theorem refresh_stats_stale:
  "2 \<le> now - last_updated st \<Longrightarrow>
   status_var (refresh_stats now st app) = WaitingForStream \<and>
   status_var (refresh_stats now st app) \<noteq> StreamingActive \<and>
   fps_var (refresh_stats now st app) = FpsIdle \<and>
   latency_var (refresh_stats now st app) = LatencyIdle"
  by (simp add: refresh_stats_def Let_def)

theorem refresh_stats_stale_witness:
  "refresh_stats 12 \<lparr>fps = 30, latency_ms = 40, last_updated = 10\<rparr>
     \<lparr>fps_var = FpsValue 30, latency_var = LatencyValue 40, status_var = StreamingActive\<rparr>
   = \<lparr>fps_var = FpsIdle, latency_var = LatencyIdle, status_var = WaitingForStream\<rparr>"
  using refresh_stats_stale [of 12 "\<lparr>fps = 30, latency_ms = 40, last_updated = 10\<rparr>"
      "\<lparr>fps_var = FpsValue 30, latency_var = LatencyValue 40, status_var = StreamingActive\<rparr>"]
  by (simp add: refresh_stats_def)

subsection \<open>The control channel\<close>

text \<open>A command of ASCII characters, as the viewer's controls build them, always encodes.\<close>

lemma encode_utf8_ascii:
  "\<forall>c \<in> set command. c < 0x80 \<Longrightarrow> encode_utf8 command = Inr (map of_nat command)"
  by (induction command) (simp_all add: encode_char_def)

text \<open>
  C6. \<^verbatim>\<open>send_control_command\<close> never raises. With no producer connected it changes
  nothing. With a producer connected whose socket accepts the write, and a command
  that has a UTF-8 encoding, exactly one \<^verbatim>\<open>sendall\<close> call is made on that socket, with
  the encoded command followed by one newline byte, and nothing else changes.
\<close>

theorem send_control_command_bytes:
  "fst (send_control_command srv command) = Returned \<and>
   (client_output_stream srv = None \<longrightarrow> snd (send_control_command srv command) = srv) \<and>
   (\<forall>out bs. client_output_stream srv = Some out \<and> send_error out = None \<and>
       encode_utf8 command = Inr bs \<longrightarrow>
       snd (send_control_command srv command) =
         srv\<lparr>client_output_stream := Some (out\<lparr>sent := sent out @ [bs @ [0x0A]]\<rparr>)\<rparr>)"
  by (auto simp: send_control_command_def sendall_def split: option.splits sum.splits)
theorem send_control_command_bytes_witness:
  "send_control_command (VideoServer ''0.0.0.0'' 5000 (Queue 1) (FrameStats 0))
      [90, 79, 79, 77, 58, 50, 46, 53, 48] =
     (Returned, VideoServer ''0.0.0.0'' 5000 (Queue 1) (FrameStats 0)) \<and>
   send_control_command
      ((VideoServer ''0.0.0.0'' 5000 (Queue 1) (FrameStats 0))
         \<lparr>client_output_stream := Some \<lparr>sent = [], send_error = None\<rparr>\<rparr>)
      [90, 79, 79, 77, 58, 50, 46, 53, 48] =
     (Returned,
      (VideoServer ''0.0.0.0'' 5000 (Queue 1) (FrameStats 0))
         \<lparr>client_output_stream :=
            Some \<lparr>sent = [[0x5A, 0x4F, 0x4F, 0x4D, 0x3A, 0x32, 0x2E, 0x35, 0x30, 0x0A]],
                  send_error = None\<rparr>\<rparr>)"
proof -
  let ?s0 = "VideoServer ''0.0.0.0'' 5000 (Queue 1) (FrameStats 0)"
  let ?out = "\<lparr>sent = [], send_error = None\<rparr>"
  let ?s1 = "?s0\<lparr>client_output_stream := Some ?out\<rparr>"
  let ?cmd = "[90, 79, 79, 77, 58, 50, 46, 53, 48] :: str"
  have enc: "encode_utf8 ?cmd = Inr [0x5A, 0x4F, 0x4F, 0x4D, 0x3A, 0x32, 0x2E, 0x35, 0x30]"
    by (simp add: encode_char_def)
  have none: "client_output_stream ?s0 = None"
    by (simp add: VideoServer_def)
  have a: "fst (send_control_command ?s0 ?cmd) = Returned"
    and b: "snd (send_control_command ?s0 ?cmd) = ?s0"
    using send_control_command_bytes [of ?s0 ?cmd] none by simp_all
  have c: "fst (send_control_command ?s1 ?cmd) = Returned"
    and d: "snd (send_control_command ?s1 ?cmd) =
      ?s1\<lparr>client_output_stream := Some (?out\<lparr>sent := sent ?out @
          [[0x5A, 0x4F, 0x4F, 0x4D, 0x3A, 0x32, 0x2E, 0x35, 0x30] @ [0x0A]]\<rparr>)\<rparr>"
    using send_control_command_bytes [of ?s1 ?cmd] enc by simp_all
  show ?thesis
    using a b c d by (simp add: prod_eq_iff)
qed

text \<open>A write that fails is reported on standard output and nothing is sent.\<close>

lemma send_control_command_broken_example:
  "send_control_command
      ((VideoServer ''0.0.0.0'' 5000 (Queue 1) (FrameStats 0))
         \<lparr>client_output_stream := Some \<lparr>sent = [], send_error = Some ConnectionError\<rparr>\<rparr>)
      [90, 79, 79, 77, 58, 50, 46, 53, 48] =
     (Returned,
      (VideoServer ''0.0.0.0'' 5000 (Queue 1) (FrameStats 0))
         \<lparr>client_output_stream := Some \<lparr>sent = [], send_error = Some ConnectionError\<rparr>,
          stdout := [FailedToSend ConnectionError]\<rparr>)"
  by (simp add: send_control_command_def sendall_def encode_char_def VideoServer_def)

subsection \<open>Starting the listener\<close>

text \<open>
  C4, as the specification states it, asks for a call of \<^verbatim>\<open>start()\<close> that reports a
  bind failure. There is none: no call of \<^verbatim>\<open>start()\<close> raises at all.
\<close>

theorem start_never_raises: "\<not> (\<exists>srv e. fst (start srv) = Raised e)"
  by (simp add: start_def)

text \<open>
  C4, amended. Every call of \<^verbatim>\<open>start()\<close> returns normally. When a live server thread
  exists already it changes nothing; otherwise it sets the run flag and records a newly
  started server thread. The exception of \<^verbatim>\<open>bind\<close> is raised inside \<^verbatim>\<open>_run_server\<close>,
  which runs on the server thread, and leaves \<^verbatim>\<open>_run_server\<close> with the server object as
  \<^verbatim>\<open>start()\<close> left it.
\<close>

theorem start_returns_bind_fails_in_thread:
  "fst (start srv) = Returned \<and>
   (\<forall>t. server_thread srv = Some t \<and> is_alive t \<longrightarrow> snd (start srv) = srv) \<and>
   ((\<forall>t. server_thread srv = Some t \<longrightarrow> \<not> is_alive t) \<longrightarrow>
      snd (start srv) = srv\<lparr>should_run := True, server_thread := Some (Thread True)\<rparr>) \<and>
   (bind_error net = Some e \<longrightarrow>
      run_server clock net (snd (start srv)) calls = (Raised e, snd (start srv), calls))"
  by (auto simp: start_def run_server_def split: option.splits)

theorem start_returns_bind_fails_in_thread_witness:
  "start (VideoServer ''0.0.0.0'' 80 (Queue 1) (FrameStats 0)) =
     (Returned,
      (VideoServer ''0.0.0.0'' 80 (Queue 1) (FrameStats 0))
        \<lparr>should_run := True, server_thread := Some (Thread True)\<rparr>) \<and>
   run_server (\<lambda>k. 0) \<lparr>bind_error = Some OSError, accepts = []\<rparr>
      (snd (start (VideoServer ''0.0.0.0'' 80 (Queue 1) (FrameStats 0)))) 0 =
     (Raised OSError,
      (VideoServer ''0.0.0.0'' 80 (Queue 1) (FrameStats 0))
        \<lparr>should_run := True, server_thread := Some (Thread True)\<rparr>, 0) \<and>
   start ((VideoServer ''0.0.0.0'' 80 (Queue 1) (FrameStats 0))
            \<lparr>server_thread := Some (Thread True)\<rparr>) =
     (Returned,
      (VideoServer ''0.0.0.0'' 80 (Queue 1) (FrameStats 0))
        \<lparr>server_thread := Some (Thread True)\<rparr>)"
proof -
  let ?s0 = "VideoServer ''0.0.0.0'' 80 (Queue 1) (FrameStats 0)"
  let ?s1 = "?s0\<lparr>server_thread := Some (Thread True)\<rparr>"
  let ?net = "\<lparr>bind_error = Some OSError, accepts = []\<rparr>"
  have none: "\<forall>t. server_thread ?s0 = Some t \<longrightarrow> \<not> is_alive t"
    by (simp add: VideoServer_def)
  have live: "server_thread ?s1 = Some (Thread True) \<and> is_alive (Thread True)"
    by simp
  have b: "bind_error ?net = Some OSError" by simp
  note t0 = start_returns_bind_fails_in_thread [of ?s0 ?net OSError "\<lambda>k. 0" 0]
  note t1 = start_returns_bind_fails_in_thread [of ?s1 ?net OSError "\<lambda>k. 0" 0]
  have a0: "fst (start ?s0) = Returned"
    and a1: "snd (start ?s0) = ?s0\<lparr>should_run := True, server_thread := Some (Thread True)\<rparr>"
    and a2: "run_server (\<lambda>k. 0) ?net (snd (start ?s0)) 0 = (Raised OSError, snd (start ?s0), 0)"
    using t0 none b by blast+
  have c0: "fst (start ?s1) = Returned" and c1: "snd (start ?s1) = ?s1"
    using t1 live by blast+
  show ?thesis
    using a0 a1 a2 c0 c1 by (simp add: prod_eq_iff)
qed

subsection \<open>One pass of the receive loop\<close>

lemma unpack_I_length: "unpack_I h = Inr n \<Longrightarrow> length h = 4"
  by (auto simp: unpack_I_def split: list.splits)

text \<open>A pass over an out-of-range header.\<close>

lemma loop_body_skip:
  assumes p: "pending (sock r) = hdr @ rest"
    and h: "unpack_I hdr = Inr n"
    and out: "n \<le> 0 \<or> n > 5 * 1024 * 1024"
  shows "loop_body clock r = (Continue, r\<lparr>sock := snd (recvall (sock r) 4)\<rparr>)"
    and "pending (snd (recvall (sock r) 4)) = rest"
proof -
  have l4: "length hdr = 4" using h by (rule unpack_I_length)
  have le: "4 \<le> length (pending (sock r))" using p l4 by simp
  from recvall_enough [OF le] obtain s1 where
    rv: "recvall (sock r) 4 = (Inr (Some (take 4 (pending (sock r)))), s1)"
    and p1: "pending s1 = drop 4 (pending (sock r))"
    by blast
  have tk: "take 4 (pending (sock r)) = hdr" using p l4 by simp
  have hne: "hdr \<noteq> []" using l4 by auto
  show "loop_body clock r = (Continue, r\<lparr>sock := snd (recvall (sock r) 4)\<rparr>)"
    using rv tk hne h out by (simp add: loop_body_def)
  show "pending (snd (recvall (sock r) 4)) = rest"
    using rv p1 p l4 by simp
qed

text \<open>A pass over a well-formed unit.\<close>

lemma loop_body_frame:
  fixes r :: receiver and clock :: clock and payload hdr rest :: bytes and n :: nat
  assumes p: "pending (sock r) = hdr @ payload @ rest"
    and h: "unpack_I hdr = Inr n"
    and n1: "1 \<le> n" and n2: "n \<le> 5 * 1024 * 1024"
    and lp: "length payload = n"
  defines "s2 \<equiv> snd (recvall (snd (recvall (sock r) 4)) n)"
    and "now \<equiv> clock (time_calls r)"
  defines "srv \<equiv> snd (push_frame id id (self r) payload now)"
    and "elapsed \<equiv> now - window_start r"
  shows "loop_body clock r =
     (Continue,
      if elapsed \<ge> 1 then
        r\<lparr>self := srv\<lparr>stats := (stats srv)\<lparr>fps := real_of_int (frame_count r + 1) / elapsed\<rparr>\<rparr>,
          sock := s2, time_calls := Suc (time_calls r),
          frame_count := 0, window_start := now\<rparr>
      else
        r\<lparr>self := srv, sock := s2, time_calls := Suc (time_calls r),
          frame_count := frame_count r + 1\<rparr>)"
    and "pending s2 = rest"
    and "stopper s2 = stopper (sock r)"
proof -
  have l4: "length hdr = 4" using h by (rule unpack_I_length)
  have le: "4 \<le> length (pending (sock r))" using p l4 by simp
  from recvall_enough [OF le] obtain s1 where
    rv: "recvall (sock r) 4 = (Inr (Some (take 4 (pending (sock r)))), s1)"
    and p1: "pending s1 = drop 4 (pending (sock r))"
    and st1: "stopper s1 = stopper (sock r)"
    by blast
  have tk: "take 4 (pending (sock r)) = hdr" using p l4 by simp
  have hne: "hdr \<noteq> []" using l4 by auto
  have p1': "pending s1 = payload @ rest" using p1 p l4 by simp
  have le2: "n \<le> length (pending s1)" using p1' lp by simp
  from recvall_enough [OF le2] obtain s2' where
    rv2: "recvall s1 n = (Inr (Some (take n (pending s1))), s2')"
    and p2: "pending s2' = drop n (pending s1)"
    and st2: "stopper s2' = stopper s1"
    by blast
  have tk2: "take n (pending s1) = payload" using p1' lp by simp
  have pne: "payload \<noteq> []" using lp n1 by auto
  have s2: "s2 = s2'" using rv rv2 by (simp add: s2_def)
  have inb: "\<not> (n \<le> 0 \<or> n > 5 * 1024 * 1024)" using n1 n2 by simp
  have pf: "push_frame id id (self r) payload now = (Returned, srv)"
    using push_frame_returns [of id id "self r" payload now]
    by (simp add: srv_def prod_eq_iff)
  show "pending s2 = rest" using s2 p2 p1' lp by simp
  show "stopper s2 = stopper (sock r)" using s2 st2 st1 by simp
  show "loop_body clock r =
     (Continue,
      if elapsed \<ge> 1 then
        r\<lparr>self := srv\<lparr>stats := (stats srv)\<lparr>fps := real_of_int (frame_count r + 1) / elapsed\<rparr>\<rparr>,
          sock := s2, time_calls := Suc (time_calls r),
          frame_count := 0, window_start := now\<rparr>
      else
        r\<lparr>self := srv, sock := s2, time_calls := Suc (time_calls r),
          frame_count := frame_count r + 1\<rparr>)"
    unfolding loop_body_def
    using rv tk hne h inb rv2 tk2 pne pf [unfolded now_def] s2
    by (simp add: Let_def now_def elapsed_def)
qed

text \<open>A pass that finds fewer than four bytes ends the loop and touches nothing else.\<close>

lemma loop_body_no_header:
  assumes "length (pending (sock r)) < 4"
  shows "\<exists>f s. loop_body clock r = (f, r\<lparr>sock := s\<rparr>) \<and> f \<noteq> Continue"
proof -
  obtain res s1 where rv: "recvall (sock r) 4 = (res, s1)"
    by (cases "recvall (sock r) 4")
  have "res \<noteq> Inr (Some h)" for h
    using recvall_Some(1) [of "sock r" 4 h s1] rv assms by auto
  then consider e where "res = Inl e" | "res = Inr None"
    by (cases res) (auto simp: option.exhaust)
  then show ?thesis
  proof cases
    case 1
    then show ?thesis
      using rv by (auto simp: loop_body_def on_exception_def)
  next
    case 2
    then show ?thesis
      using rv by (auto simp: loop_body_def)
  qed
qed

lemma handle_loop_no_header:
  assumes "length (pending (sock r)) < 4"
  shows "\<exists>c s. handle_loop clock r = (c, r\<lparr>sock := s\<rparr>)"
proof (cases "should_run (self r)")
  case False
  then have "handle_loop clock r = (Returned, r\<lparr>sock := sock r\<rparr>)"
    by (simp add: handle_loop.simps [of clock r])
  then show ?thesis by blast
next
  case True
  from loop_body_no_header [OF assms, of clock] obtain f s where
    lb: "loop_body clock r = (f, r\<lparr>sock := s\<rparr>)" and f: "f \<noteq> Continue"
    by blast
  have "fst (handle_loop clock r) = (case f of Uncaught e \<Rightarrow> Raised e | _ \<Rightarrow> Returned)"
    and "snd (handle_loop clock r) = r\<lparr>sock := s\<rparr>"
    using True lb f by (cases f; simp add: handle_loop.simps [of clock r])+
  then show ?thesis
    by (metis prod.collapse)
qed

subsection \<open>Headers out of range\<close>

text \<open>
  C1, as the specification states it, has the loop read and discard the declared
  number of bytes after an out-of-range header. It does not: after the header
  \<^verbatim>\<open>00 50 00 01\<close> (5242881, one more than 5 MiB) the pass ends in \<^verbatim>\<open>continue\<close> with
  the five bytes that follow still to be read, where discarding 5242881 bytes would have
  left none.
\<close>

lemma recvall_example:
  "recvall [Data [0, 0x50, 0, 1, 0, 0, 0, 1, 65]] 4 =
     (Inr (Some [0, 0x50, 0, 1]), [Data [0, 0, 0, 1, 65]])"
  by (simp add: recvall_def)

lemma unpack_example: "unpack_I [0, 0x50, 0, 1] = Inr 5242881"
  by (simp add: unpack_I_def)
theorem out_of_range_payload_not_discarded:
  "unpack_I [0, 0x50, 0, 1] = Inr 5242881 \<and>
   pending (sock oversize_then_frame) = [0, 0x50, 0, 1] @ [0, 0, 0, 1, 65] \<and>
   fst (loop_body (\<lambda>k. 0) oversize_then_frame) = Continue \<and>
   pending (sock (snd (loop_body (\<lambda>k. 0) oversize_then_frame))) = [0, 0, 0, 1, 65] \<and>
   pending (sock (snd (loop_body (\<lambda>k. 0) oversize_then_frame))) \<noteq>
     drop (4 + 5242881) (pending (sock oversize_then_frame))"
proof -
  have lb: "loop_body (\<lambda>k. 0) oversize_then_frame =
     (Continue, oversize_then_frame\<lparr>sock := [Data [0, 0, 0, 1, 65]]\<rparr>)"
    using loop_body_skip(1)
      [where r = oversize_then_frame and hdr = "[0, 0x50, 0, 1]"
         and rest = "[0, 0, 0, 1, 65]" and n = 5242881 and clock = "\<lambda>k. 0"]
      unpack_example recvall_example
    by (simp add: oversize_then_frame_def)
  show ?thesis
    unfolding lb using unpack_example by (simp add: oversize_then_frame_def)
qed

text \<open>
  C1, amended. After a header whose length is 0 or more than 5 MiB the pass ends in
  \<^verbatim>\<open>continue\<close> having read the four header bytes and nothing more: every byte after
  the header is still to be read, so the next four of them are taken as the next
  header, and the server object, the clock and the frame counters are untouched.
\<close>

theorem out_of_range_header_skipped:
  "pending (sock r) = hdr @ rest \<Longrightarrow> unpack_I hdr = Inr n \<Longrightarrow>
   n \<le> 0 \<or> n > 5 * 1024 * 1024 \<Longrightarrow>
   loop_body clock r = (Continue, r\<lparr>sock := snd (recvall (sock r) 4)\<rparr>) \<and>
   pending (snd (recvall (sock r) 4)) = rest"
  by (simp add: loop_body_skip [where hdr = hdr and rest = rest and n = n])

theorem out_of_range_header_skipped_witness:
  "loop_body (\<lambda>k. 0) oversize_then_frame =
     (Continue, oversize_then_frame\<lparr>sock := [Data [0, 0, 0, 1, 65]]\<rparr>)"
  using out_of_range_header_skipped
    [of oversize_then_frame "[0, 0x50, 0, 1]" "[0, 0, 0, 1, 65]" 5242881 "\<lambda>k. 0"]
    unpack_example recvall_example
  by (simp add: oversize_then_frame_def)

subsection \<open>Delivery of a well-formed unit\<close>

text \<open>
  Every length below \<open>2 ^ 32\<close> has a header: the four bytes of its big-endian notation
  decode to it.
\<close>

lemma unpack_I_big_endian:
  assumes "n < 2 ^ 32"
  shows "unpack_I [of_nat (n div 2 ^ 24), of_nat (n div 2 ^ 16), of_nat (n div 2 ^ 8), of_nat n]
           = Inr n"
proof -
  define a where "a = n div 256"
  define b where "b = a div 256"
  define c where "c = b div 256"
  have n8: "n div 2 ^ 8 = a" by (simp add: a_def)
  have n16: "n div 2 ^ 16 = b"
    by (simp add: a_def b_def div_mult2_eq)
  have n24: "n div 2 ^ 24 = c"
    by (simp add: a_def b_def c_def div_mult2_eq)
  have c256: "c < 256"
    using assms unfolding n24 [symmetric] by (simp add: less_mult_imp_div_less)
  have e1: "n = a * 256 + n mod 256" by (simp add: a_def)
  have e2: "a = b * 256 + a mod 256" by (simp add: b_def)
  have e3: "b = c * 256 + b mod 256" by (simp add: c_def)
  have sum: "c * 16777216 + b mod 256 * 65536 + a mod 256 * 256 + n mod 256 = n"
    using e1 e2 e3 by arith
  have u: "unat (of_nat c :: byte) = c" "unat (of_nat b :: byte) = b mod 256"
    "unat (of_nat a :: byte) = a mod 256" "unat (of_nat n :: byte) = n mod 256"
    using c256 by (simp_all add: unat_of_nat)
  show ?thesis
    unfolding n8 n16 n24 using sum by (simp add: unpack_I_def u)
qed

text \<open>A pass over a well-formed unit, as the loop sees it.\<close>

lemma handle_loop_unit:
  fixes r :: receiver and clock :: clock
  assumes run: "should_run (self r)"
    and p: "pending (sock r) = hdr @ payload @ rest"
    and h: "unpack_I hdr = Inr n"
    and n1: "1 \<le> n" and n2: "n \<le> 5 * 1024 * 1024"
    and lp: "length payload = n"
  shows "fst (loop_body clock r) = Continue \<and>
         handle_loop clock r = handle_loop clock (snd (loop_body clock r)) \<and>
         frame_queue (self (snd (loop_body clock r))) =
           frame_queue (snd (push_frame id id (self r) payload (clock (time_calls r)))) \<and>
         time_calls (snd (loop_body clock r)) = Suc (time_calls r) \<and>
         pending (sock (snd (loop_body clock r))) = rest \<and>
         should_run (self (snd (loop_body clock r))) \<and>
         (maxsize (frame_queue (self r)) = 1 \<and> length (items (frame_queue (self r))) \<le> 1 \<longrightarrow>
            items (frame_queue (self (snd (loop_body clock r)))) =
              [(payload, clock (time_calls r))])"
proof -
  let ?now = "clock (time_calls r)"
  let ?srv = "snd (push_frame id id (self r) payload ?now)"
  obtain r' where lb: "loop_body clock r = (Continue, r')"
    and q: "frame_queue (self r') = frame_queue ?srv"
    and sr: "should_run (self r') = should_run ?srv"
    and tc: "time_calls r' = Suc (time_calls r)"
    and pr: "pending (sock r') = rest"
    using loop_body_frame(1) [OF p h n1 n2 lp, of clock] loop_body_frame(2) [OF p h n1 n2 lp]
    by (cases "1 \<le> clock (time_calls r) - window_start r") simp_all
  have run': "should_run (self r')"
    using sr run by (simp add: push_frame_should_run)
  have hl: "handle_loop clock r = handle_loop clock r'"
    using run lb by (simp add: handle_loop.simps [of clock r])
  show ?thesis
    unfolding hl using lb q tc pr run' by (simp add: push_frame_capacity_one del: handle_loop.simps)
qed

text \<open>
  C2. On a running server, when the bytes still to arrive on the connection start with a
  four-byte header that decodes to \<open>n\<close> with \<open>1 \<le> n \<le> 5 MiB\<close>, followed by \<open>n\<close>
  payload bytes, however they are cut into chunks and whatever follows them, one pass of
  the receive loop takes exactly the header and the payload from the connection, reads
  the clock once, leaves the queue as one call of \<^verbatim>\<open>_push_frame\<close> with exactly those
  payload bytes leaves it, and the loop goes on from there with what follows the unit. On
  the viewer's capacity-1 queue the queue then holds that payload and its timestamp, and
  nothing else.
\<close>

theorem valid_unit_pushed_once:
  fixes r :: receiver and clock :: clock
  assumes run: "should_run (self r)"
    and p: "pending (sock r) = hdr @ payload @ rest"
    and h: "unpack_I hdr = Inr n"
    and n1: "1 \<le> n" and n2: "n \<le> 5 * 1024 * 1024"
    and lp: "length payload = n"
  shows "fst (loop_body clock r) = Continue \<and>
         handle_loop clock r = handle_loop clock (snd (loop_body clock r)) \<and>
         frame_queue (self (snd (loop_body clock r))) =
           frame_queue (snd (push_frame id id (self r) payload (clock (time_calls r)))) \<and>
         time_calls (snd (loop_body clock r)) = Suc (time_calls r) \<and>
         pending (sock (snd (loop_body clock r))) = rest \<and>
         should_run (self (snd (loop_body clock r))) \<and>
         (maxsize (frame_queue (self r)) = 1 \<and> length (items (frame_queue (self r))) \<le> 1 \<longrightarrow>
            items (frame_queue (self (snd (loop_body clock r)))) =
              [(payload, clock (time_calls r))])"
  using assms by (rule handle_loop_unit)

theorem valid_unit_pushed_once_witness:
  "fst (loop_body (\<lambda>k. real k)
      \<lparr>self = (VideoServer ''0.0.0.0'' 5000 (Queue 1) (FrameStats 0))\<lparr>should_run := True\<rparr>,
       sock = [Data [0, 0], Data [0, 3, 7], Data [8, 9, 0, 0, 0, 1, 66]],
       time_calls = 1, frame_count = 0, window_start = 0\<rparr>) = Continue \<and>
   items (frame_queue (self (snd (loop_body (\<lambda>k. real k)
      \<lparr>self = (VideoServer ''0.0.0.0'' 5000 (Queue 1) (FrameStats 0))\<lparr>should_run := True\<rparr>,
       sock = [Data [0, 0], Data [0, 3, 7], Data [8, 9, 0, 0, 0, 1, 66]],
       time_calls = 1, frame_count = 0, window_start = 0\<rparr>)))) = [([7, 8, 9], 1)] \<and>
   pending (sock (snd (loop_body (\<lambda>k. real k)
      \<lparr>self = (VideoServer ''0.0.0.0'' 5000 (Queue 1) (FrameStats 0))\<lparr>should_run := True\<rparr>,
       sock = [Data [0, 0], Data [0, 3, 7], Data [8, 9, 0, 0, 0, 1, 66]],
       time_calls = 1, frame_count = 0, window_start = 0\<rparr>))) = [0, 0, 0, 1, 66] \<and>
   time_calls (snd (loop_body (\<lambda>k. real k)
      \<lparr>self = (VideoServer ''0.0.0.0'' 5000 (Queue 1) (FrameStats 0))\<lparr>should_run := True\<rparr>,
       sock = [Data [0, 0], Data [0, 3, 7], Data [8, 9, 0, 0, 0, 1, 66]],
       time_calls = 1, frame_count = 0, window_start = 0\<rparr>)) = 2"
proof -
  let ?r = "\<lparr>self = (VideoServer ''0.0.0.0'' 5000 (Queue 1) (FrameStats 0))\<lparr>should_run := True\<rparr>,
       sock = [Data [0, 0], Data [0, 3, 7], Data [8, 9, 0, 0, 0, 1, 66]],
       time_calls = 1, frame_count = 0, window_start = 0\<rparr>"
  have run: "should_run (self ?r)" by simp
  have p: "pending (sock ?r) = [0, 0, 0, 3] @ [7, 8, 9] @ [0, 0, 0, 1, 66]" by simp
  have h: "unpack_I [0, 0, 0, 3] = Inr 3" by (simp add: unpack_I_def)
  have cap: "maxsize (frame_queue (self ?r)) = 1 \<and> length (items (frame_queue (self ?r))) \<le> 1"
    by (simp add: VideoServer_def Queue_def)
  note t = valid_unit_pushed_once [OF run p h, of "\<lambda>k. real k"]
  have "fst (loop_body (\<lambda>k. real k) ?r) = Continue"
    and "items (frame_queue (self (snd (loop_body (\<lambda>k. real k) ?r)))) = [([7, 8, 9], 1)]"
    and "pending (sock (snd (loop_body (\<lambda>k. real k) ?r))) = [0, 0, 0, 1, 66]"
    and "time_calls (snd (loop_body (\<lambda>k. real k) ?r)) = 2"
    using t cap
    by (simp_all add: VideoServer_def Queue_def push_frame_def full_def put_nowait_def
        del: handle_loop.simps)
  then show ?thesis by (simp del: handle_loop.simps)
qed

text \<open>
  Unit after unit: on a queue without a bound nothing is ever dropped, so the queue shows
  every push. When well-formed units arrive one after the other, followed by fewer than
  four bytes, the loop appends exactly one entry per unit, in order, each with its own
  payload and the clock reading taken for it.
\<close>

lemma handle_loop_units:
  fixes r :: receiver and clock :: clock
  assumes "should_run (self r)"
    and "list_all well_formed us"
    and "pending (sock r) = concat (map (\<lambda>(h, p). h @ p) us) @ tail"
    and "length tail < 4"
    and "maxsize (frame_queue (self r)) \<le> 0"
  shows "items (frame_queue (self (snd (handle_loop clock r)))) =
           items (frame_queue (self r)) @
             map (\<lambda>(k, (h, p)). (p, clock k)) (enumerate (time_calls r) us) \<and>
         time_calls (snd (handle_loop clock r)) = time_calls r + length us"
  using assms
proof (induction us arbitrary: r)
  case Nil
  then have "length (pending (sock r)) < 4" by simp
  from handle_loop_no_header [OF this, of clock] obtain c s where
    "handle_loop clock r = (c, r\<lparr>sock := s\<rparr>)" by blast
  then show ?case by (simp del: handle_loop.simps)
next
  case (Cons u us)
  obtain h p where u: "u = (h, p)" by (cases u)
  have wf: "well_formed (h, p)" and rest: "list_all well_formed us"
    using Cons.prems(2) u by simp_all
  from wf obtain n where
    hn: "unpack_I h = Inr n" and n1: "1 \<le> n" and n2: "n \<le> 5 * 1024 * 1024"
    and lp: "length p = n"
    by (auto simp: well_formed_def split: sum.splits)
  let ?rest = "concat (map (\<lambda>(h, p). h @ p) us) @ tail"
  have pend: "pending (sock r) = h @ p @ ?rest"
    using Cons.prems(3) u by simp
  let ?r' = "snd (loop_body clock r)"
  note one = handle_loop_unit [OF Cons.prems(1) pend hn n1 n2 lp, of clock]
  have hl: "handle_loop clock r = handle_loop clock ?r'"
    and fq: "frame_queue (self ?r') =
      frame_queue (snd (push_frame id id (self r) p (clock (time_calls r))))"
    and tc: "time_calls ?r' = Suc (time_calls r)"
    and pr: "pending (sock ?r') = ?rest"
    and run': "should_run (self ?r')"
    using one by blast+
  have q: "frame_queue (self ?r') =
      (frame_queue (self r))\<lparr>items := items (frame_queue (self r)) @ [(p, clock (time_calls r))]\<rparr>"
    using fq Cons.prems(5) by (simp add: push_frame_unbounded)
  have unb: "maxsize (frame_queue (self ?r')) \<le> 0"
    using q Cons.prems(5) by simp
  have ih: "items (frame_queue (self (snd (handle_loop clock ?r')))) =
           items (frame_queue (self ?r')) @
             map (\<lambda>(k, (h, p)). (p, clock k)) (enumerate (time_calls ?r') us) \<and>
         time_calls (snd (handle_loop clock ?r')) = time_calls ?r' + length us"
    using Cons.IH [OF run' rest pr Cons.prems(4) unb] .
  show ?case
    unfolding hl using ih q tc u by (simp del: handle_loop.simps)
qed

lemma two_units_both_delivered:
  "items (frame_queue (self (snd (handle_client (\<lambda>k. real k)
      ((VideoServer ''0.0.0.0'' 5000 (Queue 0) (FrameStats 0))\<lparr>should_run := True\<rparr>) 0
      [Data [0, 0, 0, 1, 65, 0, 0], Data [0, 1, 66]] \<lparr>sent = [], send_error = None\<rparr>)))) =
     [([65], 1), ([66], 2)]"
proof -
  let ?r0 = "\<lparr>self = (VideoServer ''0.0.0.0'' 5000 (Queue 0) (FrameStats 0))
                 \<lparr>should_run := True,
                  client_output_stream := Some \<lparr>sent = [], send_error = None\<rparr>\<rparr>,
              sock = [Data [0, 0, 0, 1, 65, 0, 0], Data [0, 1, 66]], time_calls = Suc 0,
              frame_count = 0, window_start = real 0\<rparr>"
  have wf: "list_all well_formed [([0, 0, 0, 1], [65]), ([0, 0, 0, 1], [66])]"
    by (simp add: well_formed_def unpack_I_def)
  have "items (frame_queue (self (snd (handle_loop (\<lambda>k. real k) ?r0)))) =
      [([65], 1), ([66], 2)]"
    using handle_loop_units [of ?r0 "[([0, 0, 0, 1], [65]), ([0, 0, 0, 1], [66])]" "[]"
        "\<lambda>k. real k"] wf
    by (simp add: VideoServer_def Queue_def del: handle_loop.simps)
  moreover obtain c r where hl: "handle_loop (\<lambda>k. real k) ?r0 = (c, r)"
    by (cases "handle_loop (\<lambda>k. real k) ?r0")
  ultimately show ?thesis
    by (cases c) (simp_all add: handle_client_def del: handle_loop.simps)
qed

subsection \<open>The rate window\<close>

text \<open>
  C5. A pass that receives a frame counts it and compares the time since the window
  start with one second. From one second on, the rate becomes the count, this frame
  included, divided by the elapsed time, the count returns to 0 and the window starts
  at the current time; before that, the rate and the window start stay as they were and
  the count is one more. So the thirtieth frame of a window, arriving exactly one second
  after the window start, sets the rate to 30.
\<close>

theorem fps_window:
  fixes r :: receiver and clock :: clock
  assumes "pending (sock r) = hdr @ payload @ rest"
    and "unpack_I hdr = Inr n"
    and "1 \<le> n" and "n \<le> 5 * 1024 * 1024"
    and "length payload = n"
  shows "(let now = clock (time_calls r);
              elapsed = now - window_start r;
              r' = snd (loop_body clock r)
          in if elapsed \<ge> 1.0 then
               fps (stats (self r')) = real_of_int (frame_count r + 1) / elapsed \<and>
               frame_count r' = 0 \<and> window_start r' = now
             else
               fps (stats (self r')) = fps (stats (self r)) \<and>
               frame_count r' = frame_count r + 1 \<and> window_start r' = window_start r) \<and>
         (frame_count r = 29 \<and> clock (time_calls r) - window_start r = 1.0 \<longrightarrow>
            fps (stats (self (snd (loop_body clock r)))) = 30.0)"
proof -
  note lb = loop_body_frame(1) [OF assms, of clock]
  show ?thesis
  proof (cases "1 \<le> clock (time_calls r) - window_start r")
    case True
    then show ?thesis
      using lb by (auto simp: Let_def push_frame_stats)
  next
    case False
    then show ?thesis
      using lb by (auto simp: Let_def push_frame_stats)
  qed
qed

theorem fps_window_witness:
  "fps (stats (self (snd (loop_body (\<lambda>k. 11)
      \<lparr>self = (VideoServer ''0.0.0.0'' 5000 (Queue 1) (FrameStats 0))\<lparr>should_run := True\<rparr>,
       sock = [Data [0, 0, 0, 2, 7, 8]],
       time_calls = 30, frame_count = 29, window_start = 10\<rparr>)))) = 30"
  using fps_window
    [of "\<lparr>self = (VideoServer ''0.0.0.0'' 5000 (Queue 1) (FrameStats 0))\<lparr>should_run := True\<rparr>,
         sock = [Data [0, 0, 0, 2, 7, 8]],
         time_calls = 30, frame_count = 29, window_start = 10\<rparr>"
        "[0, 0, 0, 2]" "[7, 8]" "[]" 2 "\<lambda>k. 11"]
  by (simp add: unpack_I_def)

subsection \<open>The statistics stay non-negative\<close>

lemma push_frame_eq:
  "push_frame other1 other2 srv fd ts = (c, srv') \<Longrightarrow>
   stats srv' = (stats srv)\<lparr>last_updated := ts\<rparr>"
  using push_frame_stats [of other1 other2 srv fd ts] by simp

lemma loop_body_stats_ok:
  assumes ok: "stats_ok (stats (self r))" and fc: "0 \<le> frame_count r"
  shows "stats_ok (stats (self (snd (loop_body clock r)))) \<and>
         0 \<le> frame_count (snd (loop_body clock r))"
  using assms
  by (auto simp: loop_body_def Let_def stats_ok_def
      split: prod.splits sum.splits option.splits completion.splits
      dest!: push_frame_eq)

lemma handle_loop_stats_ok:
  "stats_ok (stats (self r)) \<Longrightarrow> 0 \<le> frame_count r \<Longrightarrow>
   stats_ok (stats (self (snd (handle_loop clock r))))"
proof (induction clock r rule: handle_loop.induct)
  case (1 clock r)
  show ?case
  proof (cases "should_run (self r)")
    case False
    then show ?thesis
      using "1.prems" by (simp add: handle_loop.simps [of clock r])
  next
    case True
    obtain f r' where lb: "loop_body clock r = (f, r')"
      by (cases "loop_body clock r")
    have inv: "stats_ok (stats (self r'))" "0 \<le> frame_count r'"
      using loop_body_stats_ok [OF "1.prems", of clock] lb by simp_all
    show ?thesis
    proof (cases f)
      case Continue
      have "handle_loop clock r = handle_loop clock r'"
        using True lb Continue by (simp add: handle_loop.simps [of clock r])
      moreover have "stats_ok (stats (self (snd (handle_loop clock r'))))"
        using "1.IH" [OF True lb [symmetric] Continue inv] .
      ultimately show ?thesis by simp
    next
      case Break
      then show ?thesis
        using True lb inv by (simp add: handle_loop.simps [of clock r])
    next
      case (Uncaught e)
      then show ?thesis
        using True lb inv by (simp add: handle_loop.simps [of clock r])
    qed
  qed
qed

lemma handle_client_stats_ok:
  assumes "stats_ok (stats srv)"
  shows "stats_ok (stats (self (snd (handle_client clock srv calls client_in client_out))))"
proof -
  let ?r0 = "\<lparr>self = srv\<lparr>client_output_stream := Some client_out\<rparr>,
              sock = client_in, time_calls = Suc calls,
              frame_count = 0, window_start = clock calls\<rparr>"
  have "stats_ok (stats (self (snd (handle_loop clock ?r0))))"
    using handle_loop_stats_ok [of ?r0 clock] assms by simp
  moreover obtain c r where hl: "handle_loop clock ?r0 = (c, r)"
    by (cases "handle_loop clock ?r0")
  ultimately show ?thesis
    by (cases c) (simp_all add: handle_client_def)
qed

text \<open>
  C9. The statistics start with \<^verbatim>\<open>fps >= 0\<close> and \<^verbatim>\<open>latency_ms >= 0\<close>, and each of the
  three places that write them keeps both: a whole run of \<^verbatim>\<open>_handle_client\<close> (which
  only ever stores a non-negative frame count divided by an elapsed time of at least
  one second), a call of \<^verbatim>\<open>_push_frame\<close> (which writes \<^verbatim>\<open>last_updated\<close> only), and
  \<^verbatim>\<open>_display_frame\<close>, whose latency is clamped at 0 whatever the two time stamps are.
\<close>

theorem stats_nonnegative:
  "stats_ok (FrameStats import_time) \<and>
   (stats_ok (stats srv) \<longrightarrow>
      stats_ok (stats (self (snd (handle_client clock srv calls client_in client_out)))) \<and>
      stats_ok (stats (snd (push_frame other1 other2 srv fd ts)))) \<and>
   (stats_ok st \<longrightarrow> stats_ok (display_frame painted now st timestamp)) \<and>
   0 \<le> latency_ms (display_frame True now st timestamp)"
  by (simp add: handle_client_stats_ok push_frame_stats)
     (simp add: stats_ok_def FrameStats_def display_frame_def)

theorem stats_nonnegative_witness:
  "stats_ok (stats (self (snd (handle_client (\<lambda>k. real k)
      ((VideoServer ''0.0.0.0'' 5000 (Queue 1) (FrameStats 0))\<lparr>should_run := True\<rparr>) 0
      [Data [0, 0, 0, 1, 65]] \<lparr>sent = [], send_error = None\<rparr>)))) \<and>
   stats_ok (stats (snd (push_frame id id
      ((VideoServer ''0.0.0.0'' 5000 (Queue 1) (FrameStats 0))\<lparr>should_run := True\<rparr>)
      [65] 1))) \<and>
   display_frame True 5 (FrameStats 0) 7 = \<lparr>fps = 0, latency_ms = 0, last_updated = 0\<rparr> \<and>
   display_frame True 7 (FrameStats 0) 5 = \<lparr>fps = 0, latency_ms = 2000, last_updated = 0\<rparr>"
proof -
  let ?srv = "(VideoServer ''0.0.0.0'' 5000 (Queue 1) (FrameStats 0))\<lparr>should_run := True\<rparr>"
  have ok: "stats_ok (stats ?srv)"
    by (simp add: stats_ok_def VideoServer_def FrameStats_def)
  note t = stats_nonnegative [of 0 ?srv "\<lambda>k. real k" 0 "[Data [0, 0, 0, 1, 65]]"
      "\<lparr>sent = [], send_error = None\<rparr>" id id "[65]" 1 "FrameStats 0" True 5 7]
  have a: "stats_ok (stats (self (snd (handle_client (\<lambda>k. real k) ?srv 0
      [Data [0, 0, 0, 1, 65]] \<lparr>sent = [], send_error = None\<rparr>))))"
    and b: "stats_ok (stats (snd (push_frame id id ?srv [65] 1)))"
    using t ok by simp_all
  have c: "display_frame True 5 (FrameStats 0) 7 = \<lparr>fps = 0, latency_ms = 0, last_updated = 0\<rparr>"
    "display_frame True 7 (FrameStats 0) 5 = \<lparr>fps = 0, latency_ms = 2000, last_updated = 0\<rparr>"
    by (simp_all add: display_frame_def FrameStats_def)
  show ?thesis using a b c by simp
qed

end
